theory Spec2Isabelle
  imports Main "HOL-Library.AList"
begin

section \<open>Errors\<close>

text \<open>
  The exceptions of \<^verbatim>\<open>tdp/core/service_manager.py\<close>, as values.  Both the length check of
  the constructor and the directory check of the bootstrap raise Python's \<^verbatim>\<open>ValueError\<close>; the
  message tells them apart.  A failed dictionary subscript raises \<^verbatim>\<open>KeyError\<close> with the key.
  \<^verbatim>\<open>NoVersionYet\<close> is imported from the repository package.  \<^verbatim>\<open>SourceError\<close> stands for
  whatever reading a default-variable file raises, \<^verbatim>\<open>GitError\<close> for what the repository
  raises at a path that holds no repository.  \<^verbatim>\<open>FileExistsError\<close> and
  \<^verbatim>\<open>NotADirectoryError\<close> are the two errors of the operating system that
  \<^verbatim>\<open>Path.mkdir\<close> can raise here, each with the path that was to be made.
\<close>

datatype error =
    ValueError string
  | KeyError string
  | NoVersionYet
  | SourceError string
  | GitError string
  | FileExistsError string
  | NotADirectoryError string

section \<open>Variables and their merge\<close>

text \<open>
  The content of a variable file: a mapping from keys to values, a value being a leaf or a
  mapping again.  A Python dictionary keeps its keys in insertion order, so a mapping is an
  association list; \<^const>\<open>AList.update\<close> is the subscript assignment \<^verbatim>\<open>x[key] = v\<close>
  (an existing key keeps its place, a new key goes to the end).
\<close>

datatype yaml = Scalar int | Mapping "(string \<times> yaml) list"

type_synonym vars = "(string \<times> yaml) list"

text \<open>
  Modelled from the spec: \<^verbatim>\<open>merge_hash\<close> is imported from \<^verbatim>\<open>ansible.utils.vars\<close> and is not
  part of the sources.  The specification describes it as the merge of two mappings that is
  recursive on shared nested-mapping keys, where on every other conflict the value of the later
  mapping replaces the value of the earlier one, and where keys present in one mapping only
  survive.
\<close>

fun merge_hash :: "vars \<Rightarrow> vars \<Rightarrow> vars" where
  "merge_hash x [] = x"
| "merge_hash x ((key, y_value) # y) =
     merge_hash
       (case map_of x key of
          None \<Rightarrow> x @ [(key, y_value)]
        | Some x_value \<Rightarrow>
            (case x_value of
               Mapping a \<Rightarrow>
                 (case y_value of
                    Mapping b \<Rightarrow> AList.update key (Mapping (merge_hash a b)) x
                  | Scalar _ \<Rightarrow> AList.update key y_value x)
             | Scalar _ \<Rightarrow> AList.update key y_value x))
       y"

definition merge_collection_vars :: "vars \<Rightarrow> vars \<Rightarrow> vars" where
  "merge_collection_vars dict_a dict_b = merge_hash dict_a dict_b"

section \<open>Components and the dependency graph\<close>

text \<open>
  Modelled from the spec: the class \<^verbatim>\<open>Component\<close> of \<^verbatim>\<open>tdp/core/component.py\<close> is not part
  of the sources.  The specification describes a component as an identifier composed of an
  owning-service name and an action kind, with an optional sub-unit between them; a component
  is service-level when its identifier collapses exactly to \<^verbatim>\<open><service>_<action>\<close>; equality
  is by identifier.  The owning service is the text before the first underscore, the action
  kind the text after the last one.
\<close>

datatype component = Component (Component_name: string)

definition Component_service :: "component \<Rightarrow> string" where
  "Component_service c = takeWhile (\<lambda>ch. ch \<noteq> CHR ''_'') (Component_name c)"

definition Component_action :: "component \<Rightarrow> string" where
  "Component_action c = rev (takeWhile (\<lambda>ch. ch \<noteq> CHR ''_'') (rev (Component_name c)))"

definition Component_is_service :: "component \<Rightarrow> bool" where
  "Component_is_service c = (Component_name c = Component_service c @ ''_'' @ Component_action c)"

text \<open>
  The graph, as far as the service manager reads it: \<^verbatim>\<open>dag.services\<close>,
  \<^verbatim>\<open>dag.services_components\<close> (a dictionary from a service name to its components) and
  \<^verbatim>\<open>dag.collections\<close>.  A collection is seen through \<^verbatim>\<open>get_service_default_vars\<close> only:
  for a service name it gives the (file name, path) pairs of the service's default variables.
\<close>

type_synonym collection = "string \<Rightarrow> (string \<times> string) list"

record dag =
  services :: "string list"
  services_components :: "(string \<times> component list) list"
  collections :: "collection list"

definition dag_components :: "dag \<Rightarrow> component set" where
  "dag_components d = (\<Union>cs \<in> snd ` set (services_components d). set cs)"

section \<open>Paths\<close>

text \<open>
  \<^verbatim>\<open>Path(p).name\<close> is the last component of the path and \<^verbatim>\<open>Path(p).stem\<close> that
  component without its suffix.  pathlib takes the suffix from the last dot, and only when
  that dot is neither the first nor the last character of the name.  The names that a
  repository reports as modified do not end in a slash.
\<close>

definition path_name :: "string \<Rightarrow> string" where
  "path_name p = rev (takeWhile (\<lambda>ch. ch \<noteq> CHR ''/'') (rev p))"

definition stem :: "string \<Rightarrow> string" where
  "stem p =
     (let name = path_name p;
          after_dot = takeWhile (\<lambda>ch. ch \<noteq> CHR ''.'') (rev name)
      in if CHR ''.'' \<in> set name \<and> after_dot \<noteq> [] \<and> Suc (length after_dot) < length name
         then take (length name - Suc (length after_dot)) name
         else name)"

section \<open>Modified components\<close>

text \<open>
  A Python \<^verbatim>\<open>set\<close> of components, as a list without repetition: \<^verbatim>\<open>set.add\<close> inserts an
  element that is not there yet, \<^verbatim>\<open>set.update\<close> adds the elements of an iterable one by one.
  The order in which \<^verbatim>\<open>list(components_modified)\<close> enumerates the set is not fixed by
  Python; here it is the order of insertion, and nothing below depends on it.
\<close>

definition set_add :: "'a list \<Rightarrow> 'a \<Rightarrow> 'a list" where
  "set_add s x = (if x \<in> set s then s else s @ [x])"

definition set_update :: "'a list \<Rightarrow> 'a list \<Rightarrow> 'a list" where
  "set_update s xs = foldl set_add s xs"

text \<open>
  The loop of \<^verbatim>\<open>components_modified\<close> over the file names that
  \<^verbatim>\<open>self._repo.files_modified(version)\<close> returned.  The subscript
  \<^verbatim>\<open>self.dag.services_components[component.service]\<close> raises \<^verbatim>\<open>KeyError\<close> for a service
  that the graph does not have.
\<close>

fun components_modified_loop :: "dag \<Rightarrow> string list \<Rightarrow> component list \<Rightarrow> error + component list" where
  "components_modified_loop d [] components_modified = Inr components_modified"
| "components_modified_loop d (file_modified # files_modified) components_modified =
     (let component = Component (stem file_modified @ ''_config'')
      in if Component_is_service component
         then (case map_of (services_components d) (Component_service component) of
                 None \<Rightarrow> Inl (KeyError (Component_service component))
               | Some service_components \<Rightarrow>
                   components_modified_loop d files_modified
                     (set_update components_modified
                        (filter (\<lambda>c. Component_action c = ''config'') service_components)))
         else components_modified_loop d files_modified (set_add components_modified component))"

definition components_modified :: "dag \<Rightarrow> string list \<Rightarrow> error + component list" where
  "components_modified d files_modified = components_modified_loop d files_modified []"

section \<open>Versioned directories\<close>

text \<open>
  Modelled from the spec: the class \<^verbatim>\<open>GitRepository\<close> of
  \<^verbatim>\<open>tdp/core/repository/git_repository.py\<close> and the class \<^verbatim>\<open>Variables\<close> of
  \<^verbatim>\<open>tdp/core/variables.py\<close> are not part of the sources.  The specification describes a
  versioned directory with a current revision or none yet, an idempotent initialisation, and a
  transaction that opens configuration files for writing and, on successful exit, creates
  exactly one new revision holding the files written, labelled with the message of the
  transaction; on failure no revision is created.  A configuration file supports
  update-from-mapping and is written back when it is closed.

  A revision is the commit itself: its message and the configuration files it holds.  The
  revisions of a repository are listed newest first.
\<close>

record commit =
  message :: string
  changes :: "(string \<times> vars) list"

record repository =
  worktree :: "(string \<times> vars) list"
  revisions :: "commit list"

datatype fs_entry =
    RegularFile
  | PlainDirectory "(string \<times> vars) list"
  | VersionedDirectory repository

text \<open>The file system, as far as the bootstrap sees it: what is at a path, if anything.\<close>

type_synonym fs = "string \<Rightarrow> fs_entry option"

definition GitRepository_init :: "fs \<Rightarrow> string \<Rightarrow> error + fs" where
  "GitRepository_init f path =
     (case f path of
        Some (VersionedDirectory r) \<Rightarrow> Inr f
      | Some (PlainDirectory files) \<Rightarrow>
          Inr (f(path \<mapsto> VersionedDirectory \<lparr>worktree = files, revisions = []\<rparr>))
      | _ \<Rightarrow> Inl (GitError path))"

definition current_version :: "fs \<Rightarrow> string \<Rightarrow> error + commit" where
  "current_version f path =
     (case f path of
        Some (VersionedDirectory r) \<Rightarrow>
          (case revisions r of [] \<Rightarrow> Inl NoVersionYet | c # _ \<Rightarrow> Inr c)
      | _ \<Rightarrow> Inl (GitError path))"

definition open_var_files :: "repository \<Rightarrow> string list \<Rightarrow> (string \<times> vars) list" where
  "open_var_files r paths =
     map (\<lambda>p. (p, case map_of (worktree r) p of None \<Rightarrow> [] | Some v \<Rightarrow> v)) paths"

definition Variables_update :: "vars \<Rightarrow> vars \<Rightarrow> vars" where
  "Variables_update content var = fold (\<lambda>(k, v). AList.update k v) var content"

definition write_back :: "(string \<times> vars) list \<Rightarrow> (string \<times> vars) list \<Rightarrow> (string \<times> vars) list" where
  "write_back configurations tree = fold (\<lambda>(p, v). AList.update p v) configurations tree"

definition validate ::
  "string \<Rightarrow> (repository \<Rightarrow> error + (string \<times> vars) list) \<Rightarrow> fs \<Rightarrow> string \<Rightarrow> error + fs" where
  "validate msg body f path =
     (case f path of
        Some (VersionedDirectory r) \<Rightarrow>
          (case body r of
             Inl e \<Rightarrow> Inl e
           | Inr configurations \<Rightarrow>
               Inr (f(path \<mapsto> VersionedDirectory
                      \<lparr>worktree = write_back configurations (worktree r),
                       revisions = \<lparr>message = msg, changes = configurations\<rparr> # revisions r\<rparr>)))
      | _ \<Rightarrow> Inl (GitError path))"

section \<open>The service manager\<close>

text \<open>
  What the service manager needs from outside the graph and the file system:
  \<^verbatim>\<open>YML_EXTENSION\<close>, a constant of \<^verbatim>\<open>tdp/core/collection.py\<close> that is not part of the
  sources, the content of the default-variable files, \<^verbatim>\<open>Variables(path).open()\<close>
  followed by \<^verbatim>\<open>to_dict()\<close>, which fails on a file that cannot be read, and the
  current directory of the process, which \<^verbatim>\<open>Path.absolute\<close> reads.
\<close>

record env =
  YML_EXTENSION :: string
  read_variables :: "string \<Rightarrow> error + vars"
  cwd :: string

record service_manager =
  sm_name :: string
  sm_repository :: string
  sm_dag :: dag

definition SERVICE_NAME_MAX_LENGTH :: nat where
  "SERVICE_NAME_MAX_LENGTH = 15"

definition ServiceManager :: "string \<Rightarrow> string \<Rightarrow> dag \<Rightarrow> error + service_manager" where
  "ServiceManager service_name repo d =
     (if length service_name > SERVICE_NAME_MAX_LENGTH
      then Inl (ValueError (service_name @ '' is longer than 15''))
      else Inr \<lparr>sm_name = service_name, sm_repository = repo, sm_dag = d\<rparr>)"

definition version :: "service_manager \<Rightarrow> fs \<Rightarrow> error + commit" where
  "version self f = current_version f (sm_repository self)"

text \<open>
  The first loop of \<^verbatim>\<open>initialize_variables\<close>: \<^verbatim>\<open>default_var_paths\<close> is an ordered
  dictionary from a file name to the paths that give its defaults, in the order of the
  collections; \<^verbatim>\<open>setdefault(name, []).append(path)\<close> is the update below.
\<close>

fun group_default_vars ::
  "(string \<times> string) list \<Rightarrow> (string \<times> string list) list \<Rightarrow> (string \<times> string list) list" where
  "group_default_vars [] default_var_paths = default_var_paths"
| "group_default_vars ((file_name, path) # default_vars) default_var_paths =
     group_default_vars default_vars
       (AList.update file_name
          (case map_of default_var_paths file_name of None \<Rightarrow> [path] | Some paths \<Rightarrow> paths @ [path])
          default_var_paths)"

fun collect_default_var_paths ::
  "collection list \<Rightarrow> string \<Rightarrow> (string \<times> string list) list \<Rightarrow> (string \<times> string list) list" where
  "collect_default_var_paths [] service_name default_var_paths = default_var_paths"
| "collect_default_var_paths (collection # rest) service_name default_var_paths =
     (let default_vars = collection service_name
      in if default_vars = [] then collect_default_var_paths rest service_name default_var_paths
         else collect_default_var_paths rest service_name (group_default_vars default_vars default_var_paths))"

text \<open>
  A service without default variables gets one key, its own file name, with the value
  \<^verbatim>\<open>None\<close>.
\<close>

definition default_var_paths :: "env \<Rightarrow> service_manager \<Rightarrow> (string \<times> string list option) list" where
  "default_var_paths e self =
     (let collected = collect_default_var_paths (collections (sm_dag self)) (sm_name self) []
      in if collected = [] then [(sm_name self @ YML_EXTENSION e, None)]
         else map (\<lambda>(file_name, paths). (file_name, Some paths)) collected)"

text \<open>The inner loop: the defaults of one file, merged in the order of their paths.\<close>

fun merge_defaults :: "env \<Rightarrow> string list \<Rightarrow> vars \<Rightarrow> error + vars" where
  "merge_defaults e [] merge_result = Inr merge_result"
| "merge_defaults e (default_variables_path # rest) merge_result =
     (case read_variables e default_variables_path of
        Inl err \<Rightarrow> Inl err
      | Inr variables \<Rightarrow> merge_defaults e rest (merge_collection_vars merge_result variables))"

definition initialize_configuration :: "env \<Rightarrow> string list option \<Rightarrow> vars \<Rightarrow> error + vars" where
  "initialize_configuration e default_variables_paths configuration =
     (case default_variables_paths of
        Some (p # ps) \<Rightarrow>
          (case merge_defaults e (p # ps) [] of
             Inl err \<Rightarrow> Inl err
           | Inr merge_result \<Rightarrow> Inr (Variables_update configuration merge_result))
      | _ \<Rightarrow> Inr configuration)"

fun initialize_configurations ::
  "env \<Rightarrow> (string \<times> string list option) list \<Rightarrow> (string \<times> vars) list \<Rightarrow> error + (string \<times> vars) list" where
  "initialize_configurations e dvp [] = Inr []"
| "initialize_configurations e dvp ((configuration_file, configuration) # rest) =
     (case map_of dvp configuration_file of
        None \<Rightarrow> Inl (KeyError configuration_file)
      | Some default_variables_paths \<Rightarrow>
          (case initialize_configuration e default_variables_paths configuration of
             Inl err \<Rightarrow> Inl err
           | Inr configuration' \<Rightarrow>
               (case initialize_configurations e dvp rest of
                  Inl err \<Rightarrow> Inl err
                | Inr rest' \<Rightarrow> Inr ((configuration_file, configuration') # rest'))))"

definition initialize_variables :: "service_manager \<Rightarrow> env \<Rightarrow> fs \<Rightarrow> error + fs" where
  "initialize_variables self e f =
     (let dvp = default_var_paths e self
      in validate (sm_name self @ '': initial commit'')
           (\<lambda>repository.
              initialize_configurations e dvp (open_var_files repository (map fst dvp)))
           f (sm_repository self))"

section \<open>Bootstrap\<close>

text \<open>
  What pathlib makes of a path string: the root (one slash, or two when the string starts with
  exactly two), and the parts between the slashes, without the empty parts and the parts that
  are a single dot.  \<^verbatim>\<open>str\<close> of a path is the root followed by the parts joined by
  slashes, and a dot for the path without root and parts.  \<^verbatim>\<open>absolute()\<close> puts the
  current directory in front of a path that has no root.
\<close>

fun split_path :: "string \<Rightarrow> string list" where
  "split_path [] = [[]]"
| "split_path (c # cs) =
     (if c = CHR ''/'' then [] # split_path cs
      else (case split_path cs of w # ws \<Rightarrow> (c # w) # ws | [] \<Rightarrow> [[c]]))"

definition path_parts :: "string \<Rightarrow> string list" where
  "path_parts p = filter (\<lambda>part. part \<noteq> [] \<and> part \<noteq> ''.'') (split_path p)"

definition path_root :: "string \<Rightarrow> string" where
  "path_root p =
     (if take 2 p = ''//'' \<and> take 3 p \<noteq> ''///'' then ''//''
      else if take 1 p = ''/'' then ''/''
      else [])"

fun join_parts :: "string list \<Rightarrow> string" where
  "join_parts [] = []"
| "join_parts [part] = part"
| "join_parts (part # next_part # parts) = part @ ''/'' @ join_parts (next_part # parts)"

definition format_path :: "string \<Rightarrow> string list \<Rightarrow> string" where
  "format_path root parts = (if root = [] \<and> parts = [] then ''.'' else root @ join_parts parts)"

definition absolute :: "string \<Rightarrow> string \<Rightarrow> string" where
  "absolute current_directory p =
     (if path_root p \<noteq> [] then format_path (path_root p) (path_parts p)
      else format_path (path_root current_directory)
             (path_parts current_directory @ path_parts p))"

text \<open>
  The directories above a path, the outermost first, without the root and without the current
  directory, which are there in any case.
\<close>

fun proper_prefixes :: "'a list \<Rightarrow> 'a list list" where
  "proper_prefixes (x # y # ys) = [x] # map ((#) x) (proper_prefixes (y # ys))"
| "proper_prefixes _ = []"

definition ancestors :: "string \<Rightarrow> string list" where
  "ancestors p = map (format_path (path_root p)) (proper_prefixes (path_parts p))"

text \<open>
  \<^verbatim>\<open>service_directory.mkdir(parents=True)\<close>.  The map is read as a file system: what
  is at a path has directories above it, so a path that holds something is read first, and
  making it raises \<^verbatim>\<open>FileExistsError\<close>.  For a path that holds nothing, the operating
  system raises \<^verbatim>\<open>NotADirectoryError\<close> when something above it is not a directory, and
  pathlib makes, one after the other from the outermost, the directories above it that are
  missing, and then the directory itself.  The code catches \<^verbatim>\<open>FileExistsError\<close> only;
  then a path that is not a directory is a \<^verbatim>\<open>ValueError\<close>, whose message has the
  absolute path.
\<close>

definition is_dir :: "fs \<Rightarrow> string \<Rightarrow> bool" where
  "is_dir f path = (case f path of None \<Rightarrow> False | Some RegularFile \<Rightarrow> False | Some _ \<Rightarrow> True)"

fun make_ancestors :: "string \<Rightarrow> fs \<Rightarrow> string list \<Rightarrow> error + fs" where
  "make_ancestors p f [] = Inr f"
| "make_ancestors p f (a # rest) =
     (case f a of
        None \<Rightarrow> make_ancestors p (f(a \<mapsto> PlainDirectory [])) rest
      | Some RegularFile \<Rightarrow> Inl (NotADirectoryError p)
      | Some _ \<Rightarrow> make_ancestors p f rest)"

definition mkdir :: "fs \<Rightarrow> string \<Rightarrow> error + fs" where
  "mkdir f p =
     (case f p of
        Some _ \<Rightarrow> Inl (FileExistsError p)
      | None \<Rightarrow>
          (case make_ancestors p f (ancestors p) of
             Inl err \<Rightarrow> Inl err
           | Inr f' \<Rightarrow> Inr (f'(p \<mapsto> PlainDirectory []))))"

definition ensure_directory :: "string \<Rightarrow> fs \<Rightarrow> string \<Rightarrow> error + fs" where
  "ensure_directory current_directory f service_directory =
     (case mkdir f service_directory of
        Inr f' \<Rightarrow> Inr f'
      | Inl (FileExistsError _) \<Rightarrow>
          if \<not> is_dir f service_directory
          then Inl (ValueError
                 (absolute current_directory service_directory @ '' should be a directory''))
          else Inr f
      | Inl err \<Rightarrow> Inl err)"

text \<open>
  One round of the loop of \<^verbatim>\<open>initialize_service_managers\<close>.  The path
  \<^verbatim>\<open>services_directory / service\<close> is the two strings joined by a slash: the directory of
  the services is written as pathlib prints it, and a service name is one part of a path.
\<close>

definition initialize_service_manager ::
  "env \<Rightarrow> dag \<Rightarrow> string \<Rightarrow> fs \<Rightarrow> string \<Rightarrow> error + (fs \<times> service_manager)" where
  "initialize_service_manager e d services_directory f service =
     (let service_directory = services_directory @ ''/'' @ service
      in case ensure_directory (cwd e) f service_directory of
           Inl err \<Rightarrow> Inl err
         | Inr f1 \<Rightarrow>
             (case GitRepository_init f1 service_directory of
                Inl err \<Rightarrow> Inl err
              | Inr f2 \<Rightarrow>
                  (case ServiceManager service service_directory d of
                     Inl err \<Rightarrow> Inl err
                   | Inr service_manager \<Rightarrow>
                       (case version service_manager f2 of
                          Inr v \<Rightarrow> Inr (f2, service_manager)
                        | Inl NoVersionYet \<Rightarrow>
                            (case initialize_variables service_manager e f2 of
                               Inl err \<Rightarrow> Inl err
                             | Inr f3 \<Rightarrow> Inr (f3, service_manager))
                        | Inl err \<Rightarrow> Inl err))))"

fun initialize_service_managers_loop ::
  "env \<Rightarrow> dag \<Rightarrow> string \<Rightarrow> string list \<Rightarrow> fs \<Rightarrow> (string \<times> service_manager) list
     \<Rightarrow> error + (fs \<times> (string \<times> service_manager) list)" where
  "initialize_service_managers_loop e d services_directory [] f service_managers =
     Inr (f, service_managers)"
| "initialize_service_managers_loop e d services_directory (service # rest) f service_managers =
     (case initialize_service_manager e d services_directory f service of
        Inl err \<Rightarrow> Inl err
      | Inr (f', service_manager) \<Rightarrow>
          initialize_service_managers_loop e d services_directory rest f'
            (AList.update service service_manager service_managers))"

definition initialize_service_managers ::
  "env \<Rightarrow> dag \<Rightarrow> string \<Rightarrow> fs \<Rightarrow> error + (fs \<times> (string \<times> service_manager) list)" where
  "initialize_service_managers e d services_directory f =
     initialize_service_managers_loop e d services_directory (services d) f []"

section \<open>Notions and examples used in the statements\<close>

text \<open>
  The candidate component that \<^verbatim>\<open>components_modified\<close> builds from a modified file:
  \<^verbatim>\<open>Component(Path(file_modified).stem + "_config")\<close>.
\<close>

definition candidate :: "string \<Rightarrow> component" where
  "candidate file_modified = Component (stem file_modified @ ''_config'')"

text \<open>The graph of the specification's example: the service hdfs with two components.\<close>

definition hdfs_dag :: dag where
  "hdfs_dag =
     \<lparr>services = [''hdfs''],
      services_components =
        [(''hdfs'', [Component ''hdfs_datanode_config'', Component ''hdfs_namenode_config''])],
      collections = []\<rparr>"

text \<open>The two sources of the specification's merge example, and an environment that reads them.\<close>

definition source_A :: vars where
  "source_A = [(''a'', Scalar 1), (''b'', Mapping [(''c'', Scalar 2)])]"

definition source_B :: vars where
  "source_B = [(''b'', Mapping [(''c'', Scalar 3), (''d'', Scalar 4)])]"

definition example_env :: env where
  "example_env =
     \<lparr>YML_EXTENSION = ''.yml'',
      read_variables = (\<lambda>path.
        if path = ''A'' then Inr source_A
        else if path = ''B'' then Inr source_B
        else Inl (SourceError path)),
      cwd = ''/home/tdp''\<rparr>"

text \<open>
  A graph with two services and two collections: hdfs has no default variables, yarn has the
  file yarn.yml in both collections.  The file system holds the directory of the services, in
  it a versioned directory with one revision for yarn, nothing for hdfs, and a regular file
  where the directory of hive would be.
\<close>

definition example_dag :: dag where
  "example_dag =
     \<lparr>services = [''hdfs'', ''yarn''],
      services_components =
        [(''hdfs'', [Component ''hdfs_datanode_config'', Component ''hdfs_namenode_config'']),
         (''yarn'', [Component ''yarn_config''])],
      collections =
        [\<lambda>service_name. if service_name = ''yarn'' then [(''yarn.yml'', ''A'')] else [],
         \<lambda>service_name. if service_name = ''yarn'' then [(''yarn.yml'', ''B'')] else []]\<rparr>"

definition yarn_commit :: commit where
  "yarn_commit = \<lparr>message = ''yarn: initial commit'', changes = [(''yarn.yml'', source_A)]\<rparr>"

definition example_fs :: fs where
  "example_fs =
     [''/vars'' \<mapsto> PlainDirectory [],
      ''/vars/yarn'' \<mapsto>
        VersionedDirectory \<lparr>worktree = [(''yarn.yml'', source_A)], revisions = [yarn_commit]\<rparr>,
      ''/vars/hive'' \<mapsto> RegularFile]"

definition hdfs_commit :: commit where
  "hdfs_commit = \<lparr>message = ''hdfs: initial commit'', changes = [(''hdfs.yml'', [])]\<rparr>"

definition hdfs_manager :: service_manager where
  "hdfs_manager = \<lparr>sm_name = ''hdfs'', sm_repository = ''/vars/hdfs'', sm_dag = example_dag\<rparr>"

definition yarn_manager :: service_manager where
  "yarn_manager = \<lparr>sm_name = ''yarn'', sm_repository = ''/vars/yarn'', sm_dag = example_dag\<rparr>"

definition bootstrapped_fs :: fs where
  "bootstrapped_fs =
     example_fs(''/vars/hdfs'' \<mapsto>
       VersionedDirectory \<lparr>worktree = [(''hdfs.yml'', [])], revisions = [hdfs_commit]\<rparr>)"

definition empty_repository_fs :: fs where
  "empty_repository_fs =
     [''/vars/hdfs'' \<mapsto> VersionedDirectory \<lparr>worktree = [], revisions = []\<rparr>]"


text \<open>
  A file system in which the directory of yarn is a repository with no revision yet, and the
  graph of the example with its collections in the opposite order.
\<close>

definition fresh_yarn_fs :: fs where
  "fresh_yarn_fs = [''/vars/yarn'' \<mapsto> VersionedDirectory \<lparr>worktree = [], revisions = []\<rparr>]"

definition reversed_dag :: dag where
  "reversed_dag = example_dag\<lparr>collections := rev (collections example_dag)\<rparr>"

text \<open>
  A source like A whose nested mapping has a key of its own, e, next to the shared key c.
\<close>

definition source_A_sibling :: vars where
  "source_A_sibling = [(''a'', Scalar 1), (''b'', Mapping [(''c'', Scalar 2), (''e'', Scalar 5)])]"




section \<open>Components and paths\<close>

lemma Component_service_candidate:
  "CHR ''_'' \<notin> set s \<Longrightarrow> Component_service (Component (s @ ''_config'')) = s"
  by (simp add: Component_service_def takeWhile_append)

lemma Component_action_candidate: "Component_action (Component (s @ ''_config'')) = ''config''"
  by (simp add: Component_action_def)

lemma Component_is_service_candidate:
  "Component_is_service (Component (s @ ''_config'')) \<longleftrightarrow> CHR ''_'' \<notin> set s"
proof
  assume "CHR ''_'' \<notin> set s"
  then show "Component_is_service (Component (s @ ''_config''))"
    by (simp add: Component_is_service_def Component_service_candidate Component_action_candidate)
next
  assume "Component_is_service (Component (s @ ''_config''))"
  then have "s = takeWhile (\<lambda>ch. ch \<noteq> CHR ''_'') (s @ ''_config'')"
    by (simp add: Component_is_service_def Component_service_def Component_action_def)
  then have "set s \<subseteq> set (takeWhile (\<lambda>ch. ch \<noteq> CHR ''_'') (s @ ''_config''))"
    by simp
  then show "CHR ''_'' \<notin> set s"
    using set_takeWhileD by fastforce
qed

lemma path_name_plain: "CHR ''/'' \<notin> set p \<Longrightarrow> path_name p = p"
proof -
  assume "CHR ''/'' \<notin> set p"
  then have h: "takeWhile (\<lambda>ch. ch \<noteq> CHR ''/'') (rev p) = rev p"
    by (intro takeWhile_eq_all_conv[THEN iffD2]) auto
  show ?thesis unfolding path_name_def h by simp
qed

lemma stem_extension:
  assumes "base \<noteq> []" "ext \<noteq> []" "CHR ''.'' \<notin> set ext"
    "CHR ''/'' \<notin> set base" "CHR ''/'' \<notin> set ext"
  shows "stem (base @ ''.'' @ ext) = base"
proof -
  have n: "path_name (base @ ''.'' @ ext) = base @ ''.'' @ ext"
    using assms by (simp add: path_name_plain)
  have t: "takeWhile (\<lambda>ch. ch \<noteq> CHR ''.'') (rev (base @ ''.'' @ ext)) = rev ext"
    using assms by (simp add: takeWhile_append)
  show ?thesis
    using assms by (simp add: stem_def n t Let_def del: rev_append append.simps)
qed

lemmas evaluate_components_modified =
  components_modified_def candidate_def hdfs_dag_def Let_def stem_def path_name_def
  Component_is_service_def Component_service_def Component_action_def
  set_update_def set_add_def dag_components_def

section \<open>The set of modified components\<close>

lemma set_set_add: "set (set_add s x) = insert x (set s)"
  by (auto simp: set_add_def)

lemma distinct_set_add: "distinct s \<Longrightarrow> distinct (set_add s x)"
  by (simp add: set_add_def)

lemma set_set_update: "set (set_update s xs) = set s \<union> set xs"
  unfolding set_update_def by (induction xs arbitrary: s) (auto simp: set_set_add)

lemma distinct_set_update: "distinct s \<Longrightarrow> distinct (set_update s xs)"
  unfolding set_update_def by (induction xs arbitrary: s) (auto simp: distinct_set_add)

lemma components_modified_loop_distinct:
  "distinct acc \<Longrightarrow> components_modified_loop d fs acc = Inr r \<Longrightarrow> distinct r"
proof (induction fs arbitrary: acc)
  case Nil
  then show ?case by simp
next
  case (Cons f fs)
  then show ?case
    by (auto simp: Let_def split: if_splits option.splits
          intro: Cons.IH distinct_set_add distinct_set_update)
qed

lemma map_of_dag_components:
  "map_of (services_components d) s = Some cs \<Longrightarrow> set cs \<subseteq> dag_components d"
  by (auto simp: dag_components_def dest!: map_of_SomeD intro!: bexI[of _ "(s, cs)"])

lemma components_modified_loop_origin:
  "components_modified_loop d fs acc = Inr r \<Longrightarrow> c \<in> set r \<Longrightarrow>
     c \<in> set acc
     \<or> (c \<in> dag_components d \<and> Component_action c = ''config'')
     \<or> (\<exists>f \<in> set fs. \<not> Component_is_service (candidate f) \<and> c = candidate f)"
proof (induction fs arbitrary: acc)
  case Nil
  then show ?case by simp
next
  case (Cons f fs)
  show ?case
  proof (cases "Component_is_service (candidate f)")
    case True
    with Cons.prems obtain cs where
      cs: "map_of (services_components d) (Component_service (candidate f)) = Some cs"
      and l: "components_modified_loop d fs
                (set_update acc (filter (\<lambda>c. Component_action c = ''config'') cs)) = Inr r"
      by (auto simp: candidate_def Let_def split: option.splits)
    from Cons.IH[OF l Cons.prems(2)] map_of_dag_components[OF cs] show ?thesis
      by (auto simp: set_set_update)
  next
    case False
    with Cons.prems have
      l: "components_modified_loop d fs (set_add acc (candidate f)) = Inr r"
      by (simp add: candidate_def Let_def)
    from Cons.IH[OF l Cons.prems(2)] False show ?thesis
      by (auto simp: set_set_add)
  qed
qed

lemma components_modified_loop_fails:
  "(\<exists>e. components_modified_loop d fs acc = Inl e) \<longleftrightarrow>
     (\<exists>f \<in> set fs. Component_is_service (candidate f)
        \<and> map_of (services_components d) (Component_service (candidate f)) = None)"
  by (induction fs arbitrary: acc) (auto simp: candidate_def Let_def split: option.splits)

lemma components_modified_loop_error:
  "components_modified_loop d fs acc = Inl e \<Longrightarrow>
     \<exists>f \<in> set fs. Component_is_service (candidate f)
        \<and> map_of (services_components d) (Component_service (candidate f)) = None
        \<and> e = KeyError (Component_service (candidate f))"
  by (induction fs arbitrary: acc) (auto simp: candidate_def Let_def split: option.splits if_splits)

lemma components_modified_service_level:
  assumes "Component_is_service (candidate f)"
    and "map_of (services_components d) (Component_service (candidate f)) = Some cs"
  shows "\<exists>r. components_modified d [f] = Inr r
           \<and> set r = {c \<in> set cs. Component_action c = ''config''}"
  using assms by (simp add: components_modified_def candidate_def Let_def set_set_update)

lemma components_modified_sub_unit:
  assumes "\<not> Component_is_service (candidate f)"
  shows "components_modified d [f] = Inr [candidate f]"
  using assms by (simp add: components_modified_def candidate_def Let_def set_add_def)

lemma components_modified_single:
  "components_modified d [f] =
     (if Component_is_service (candidate f)
      then (case map_of (services_components d) (Component_service (candidate f)) of
              None \<Rightarrow> Inl (KeyError (Component_service (candidate f)))
            | Some cs \<Rightarrow> Inr (set_update [] (filter (\<lambda>c. Component_action c = ''config'') cs)))
      else Inr [candidate f])"
  by (simp add: components_modified_def candidate_def Let_def set_add_def split: option.splits)

lemma components_modified_loop_set:
  "components_modified_loop d fs acc = Inr r \<Longrightarrow>
     set r = set acc \<union> (\<Union>f \<in> set fs. case components_modified d [f] of
                                         Inr rf \<Rightarrow> set rf | Inl err \<Rightarrow> {})"
proof (induction fs arbitrary: acc)
  case Nil
  then show ?case by simp
next
  case (Cons f fs)
  show ?case
  proof (cases "Component_is_service (candidate f)")
    case True
    with Cons.prems obtain cs where
      cs: "map_of (services_components d) (Component_service (candidate f)) = Some cs"
      and l: "components_modified_loop d fs
                (set_update acc (filter (\<lambda>c. Component_action c = ''config'') cs)) = Inr r"
      by (auto simp: candidate_def Let_def split: option.splits)
    from Cons.IH[OF l] True cs show ?thesis
      by (simp add: components_modified_single set_set_update Un_assoc)
  next
    case False
    with Cons.prems have
      l: "components_modified_loop d fs (set_add acc (candidate f)) = Inr r"
      by (simp add: candidate_def Let_def)
    from Cons.IH[OF l] False show ?thesis
      by (simp add: components_modified_single set_set_add)
  qed
qed

lemma components_modified_loop_each:
  "components_modified_loop d fs acc = Inr r \<Longrightarrow> f \<in> set fs \<Longrightarrow>
     \<exists>rf. components_modified d [f] = Inr rf"
proof -
  assume r: "components_modified_loop d fs acc = Inr r" and f: "f \<in> set fs"
  have "\<not> (Component_is_service (candidate f)
        \<and> map_of (services_components d) (Component_service (candidate f)) = None)"
    using components_modified_loop_fails[of d fs acc] r f by auto
  then show ?thesis
    by (auto simp: components_modified_single)
qed

lemma distinct_count_list_one: "distinct xs \<Longrightarrow> x \<in> set xs \<Longrightarrow> count_list xs x = 1"
  by (induction xs) (auto simp: count_list_0_iff)

section \<open>Claims about the modified components\<close>

text \<open>
  Claim C1.  A modified file whose stem is a service-level name, the name of a service of the
  graph with no sub-unit part, resolves to exactly the components of that service whose action
  is config; a modified file whose stem names a sub-unit resolves to the single candidate
  component, stem plus \<^verbatim>\<open>_config\<close>.  With the service hdfs and its components
  hdfs_datanode_config and hdfs_namenode_config, the file hdfs with any extension resolves to
  both components and the file hdfs_datanode with any extension to hdfs_datanode_config only.
\<close>

theorem components_modified_resolution:
  "(Component_is_service (candidate f) \<and> map_of (services_components d) (stem f) = Some cs
      \<longrightarrow> (\<exists>r. components_modified d [f] = Inr r
             \<and> set r = {c \<in> set cs. Component_action c = ''config''}))
   \<and> (\<not> Component_is_service (candidate f)
      \<longrightarrow> components_modified d [f] = Inr [Component (stem f @ ''_config'')])
   \<and> (ext \<noteq> [] \<and> CHR ''.'' \<notin> set ext \<and> CHR ''/'' \<notin> set ext
      \<longrightarrow> (\<exists>r. components_modified hdfs_dag [''hdfs.'' @ ext] = Inr r
             \<and> set r = {Component ''hdfs_datanode_config'', Component ''hdfs_namenode_config''})
          \<and> components_modified hdfs_dag [''hdfs_datanode.'' @ ext]
              = Inr [Component ''hdfs_datanode_config''])"
proof (intro conjI impI)
  assume a: "Component_is_service (candidate f) \<and> map_of (services_components d) (stem f) = Some cs"
  then have "CHR ''_'' \<notin> set (stem f)"
    by (simp add: candidate_def Component_is_service_candidate)
  then have "Component_service (candidate f) = stem f"
    by (simp add: candidate_def Component_service_candidate)
  with a show "\<exists>r. components_modified d [f] = Inr r
      \<and> set r = {c \<in> set cs. Component_action c = ''config''}"
    using components_modified_service_level[of f d cs] by simp
next
  assume "\<not> Component_is_service (candidate f)"
  then show "components_modified d [f] = Inr [Component (stem f @ ''_config'')]"
    using components_modified_sub_unit[of f d] by (simp add: candidate_def)
next
  assume e: "ext \<noteq> [] \<and> CHR ''.'' \<notin> set ext \<and> CHR ''/'' \<notin> set ext"
  then have s: "stem (''hdfs.'' @ ext) = ''hdfs''"
    using stem_extension[of "''hdfs''" ext] by simp
  have "Component_is_service (candidate (''hdfs.'' @ ext))"
    unfolding candidate_def s
    by (simp add: Component_is_service_def Component_service_def Component_action_def)
  moreover have "map_of (services_components hdfs_dag) (Component_service (candidate (''hdfs.'' @ ext)))
      = Some [Component ''hdfs_datanode_config'', Component ''hdfs_namenode_config'']"
    unfolding candidate_def s by (simp add: Component_service_def hdfs_dag_def)
  ultimately have "\<exists>r. components_modified hdfs_dag [''hdfs.'' @ ext] = Inr r
      \<and> set r = {c \<in> set [Component ''hdfs_datanode_config'', Component ''hdfs_namenode_config''].
                   Component_action c = ''config''}"
    by (rule components_modified_service_level)
  moreover have "{c \<in> set [Component ''hdfs_datanode_config'', Component ''hdfs_namenode_config''].
                   Component_action c = ''config''}
      = {Component ''hdfs_datanode_config'', Component ''hdfs_namenode_config''}"
    by (auto simp: Component_action_def)
  ultimately show "\<exists>r. components_modified hdfs_dag [''hdfs.'' @ ext] = Inr r
      \<and> set r = {Component ''hdfs_datanode_config'', Component ''hdfs_namenode_config''}"
    by simp
next
  assume e: "ext \<noteq> [] \<and> CHR ''.'' \<notin> set ext \<and> CHR ''/'' \<notin> set ext"
  then have s: "stem (''hdfs_datanode.'' @ ext) = ''hdfs_datanode''"
    using stem_extension[of "''hdfs_datanode''" ext] by simp
  have "\<not> Component_is_service (candidate (''hdfs_datanode.'' @ ext))"
    unfolding candidate_def s
    by (simp add: Component_is_service_def Component_service_def Component_action_def)
  then have "components_modified hdfs_dag [''hdfs_datanode.'' @ ext]
      = Inr [candidate (''hdfs_datanode.'' @ ext)]"
    by (rule components_modified_sub_unit)
  then show "components_modified hdfs_dag [''hdfs_datanode.'' @ ext]
      = Inr [Component ''hdfs_datanode_config'']"
    unfolding candidate_def s by simp
qed

theorem components_modified_resolution_witness:
  "components_modified hdfs_dag [''hdfs.yml'']
     = Inr [Component ''hdfs_datanode_config'', Component ''hdfs_namenode_config'']
   \<and> (\<exists>r. components_modified hdfs_dag [''hdfs.yml''] = Inr r
         \<and> set r = {Component ''hdfs_datanode_config'', Component ''hdfs_namenode_config''})
   \<and> components_modified hdfs_dag [''hdfs_datanode.yml''] = Inr [Component ''hdfs_datanode_config'']"
  using components_modified_resolution
      [of "''hdfs.yml''" hdfs_dag
          "[Component ''hdfs_datanode_config'', Component ''hdfs_namenode_config'']" "''yml''"]
    components_modified_resolution [of "''hdfs_datanode.yml''" hdfs_dag "[]" "''yml''"]
  by (simp add: evaluate_components_modified)

text \<open>
  Claim C2, as the code has it.  The resolution fails exactly when some modified file has a
  service-level candidate whose service is not a key of the graph, and then with the
  \<^verbatim>\<open>KeyError\<close> of that service.  When it returns, every component returned is either a
  component of the graph with the action config, from the expansion of a service-level
  candidate, or the candidate of a modified file whose stem names a sub-unit; such a candidate
  is returned as it was built, and is not looked up in the graph.
\<close>

theorem components_modified_membership:
  "(components_modified d fs = Inl e \<longrightarrow>
      (\<exists>f \<in> set fs. Component_is_service (candidate f)
         \<and> map_of (services_components d) (Component_service (candidate f)) = None
         \<and> e = KeyError (Component_service (candidate f))))
   \<and> ((\<exists>f \<in> set fs. Component_is_service (candidate f)
         \<and> map_of (services_components d) (Component_service (candidate f)) = None)
       \<longrightarrow> (\<exists>e. components_modified d fs = Inl e))
   \<and> (components_modified d fs = Inr r \<longrightarrow>
      (\<forall>c \<in> set r.
         (c \<in> dag_components d \<and> Component_action c = ''config'')
         \<or> (\<exists>f \<in> set fs. \<not> Component_is_service (candidate f) \<and> c = candidate f)))"
  using components_modified_loop_error[of d fs "[]" e]
    components_modified_loop_fails[of d fs "[]"]
    components_modified_loop_origin[of d fs "[]" r]
  unfolding components_modified_def by auto

theorem components_modified_membership_witness:
  "components_modified hdfs_dag [''spark.yml''] = Inl (KeyError ''spark'')
   \<and> Component_is_service (candidate ''spark.yml'')
   \<and> map_of (services_components hdfs_dag) (Component_service (candidate ''spark.yml'')) = None
   \<and> components_modified hdfs_dag [''hdfs.yml'', ''hdfs_journalnode.yml'']
       = Inr [Component ''hdfs_datanode_config'', Component ''hdfs_namenode_config'',
              Component ''hdfs_journalnode_config'']
   \<and> Component ''hdfs_datanode_config'' \<in> dag_components hdfs_dag
   \<and> Component ''hdfs_namenode_config'' \<in> dag_components hdfs_dag
   \<and> Component ''hdfs_journalnode_config'' = candidate ''hdfs_journalnode.yml''
   \<and> \<not> Component_is_service (candidate ''hdfs_journalnode.yml'')"
  using components_modified_membership [of hdfs_dag "[''spark.yml'']" "KeyError ''spark''" "[]"]
    components_modified_membership
      [of hdfs_dag "[''hdfs.yml'', ''hdfs_journalnode.yml'']" "KeyError []"
          "[Component ''hdfs_datanode_config'', Component ''hdfs_namenode_config'',
            Component ''hdfs_journalnode_config'']"]
  by (simp add: evaluate_components_modified)

text \<open>
  The claim as the specification states it fails: with the graph of the example, the modified
  file spark_client.yml resolves, without any failure, to the component spark_client_config,
  which is not a component of the graph and whose service is not a service of the graph.
\<close>

theorem components_modified_synthetic:
  "components_modified hdfs_dag [''spark_client.yml''] = Inr [Component ''spark_client_config'']
   \<and> Component ''spark_client_config'' \<notin> dag_components hdfs_dag
   \<and> map_of (services_components hdfs_dag)
        (Component_service (Component ''spark_client_config'')) = None"
  by (simp add: evaluate_components_modified)

text \<open>
  Claim C9.  The list that the resolution returns has no repeated element, whatever the
  modified files are, and it holds what the files contribute, file by file: every modified
  file resolves on its own, every component of its own resolution is in the list exactly
  once, also when another file contributes it too, and every component of the list is in the
  resolution of one of the files.
\<close>

theorem components_modified_distinct:
  "components_modified d fs = Inr r \<Longrightarrow>
     distinct r
     \<and> (\<forall>f \<in> set fs. \<exists>rf. components_modified d [f] = Inr rf
           \<and> (\<forall>c \<in> set rf. count_list r c = 1))
     \<and> (\<forall>c \<in> set r. \<exists>f \<in> set fs. \<exists>rf. components_modified d [f] = Inr rf \<and> c \<in> set rf)"
proof -
  assume r: "components_modified d fs = Inr r"
  then have l: "components_modified_loop d fs [] = Inr r"
    by (simp add: components_modified_def)
  have d: "distinct r"
    using components_modified_loop_distinct[of "[]" d fs r] l by simp
  have s: "set r = (\<Union>f \<in> set fs. case components_modified d [f] of
                                         Inr rf \<Rightarrow> set rf | Inl err \<Rightarrow> {})"
    using components_modified_loop_set[OF l] by simp
  have lower: "\<forall>f \<in> set fs. \<exists>rf. components_modified d [f] = Inr rf
           \<and> (\<forall>c \<in> set rf. count_list r c = 1)"
  proof
    fix f assume f: "f \<in> set fs"
    with components_modified_loop_each[OF l] obtain rf where
      rf: "components_modified d [f] = Inr rf" by blast
    with f s have "set rf \<subseteq> set r" by force
    with d have "\<forall>c \<in> set rf. count_list r c = 1"
      using distinct_count_list_one[of r] by blast
    with rf show "\<exists>rf. components_modified d [f] = Inr rf
           \<and> (\<forall>c \<in> set rf. count_list r c = 1)"
      by blast
  qed
  have upper: "\<forall>c \<in> set r. \<exists>f \<in> set fs. \<exists>rf. components_modified d [f] = Inr rf \<and> c \<in> set rf"
  proof
    fix c assume "c \<in> set r"
    with s obtain f where f: "f \<in> set fs"
      and c: "c \<in> (case components_modified d [f] of Inr rf \<Rightarrow> set rf | Inl err \<Rightarrow> {})"
      by auto
    then show "\<exists>f \<in> set fs. \<exists>rf. components_modified d [f] = Inr rf \<and> c \<in> set rf"
      by (cases "components_modified d [f]") auto
  qed
  from d lower upper show ?thesis by blast
qed

theorem components_modified_distinct_witness:
  "components_modified hdfs_dag [''hdfs.yml'', ''hdfs_datanode.yml'', ''hdfs.yml'']
     = Inr [Component ''hdfs_datanode_config'', Component ''hdfs_namenode_config'']
   \<and> components_modified hdfs_dag [''hdfs.yml'']
     = Inr [Component ''hdfs_datanode_config'', Component ''hdfs_namenode_config'']
   \<and> components_modified hdfs_dag [''hdfs_datanode.yml'']
     = Inr [Component ''hdfs_datanode_config'']
   \<and> distinct [Component ''hdfs_datanode_config'', Component ''hdfs_namenode_config'']
   \<and> count_list [Component ''hdfs_datanode_config'', Component ''hdfs_namenode_config'']
        (Component ''hdfs_datanode_config'') = 1
   \<and> count_list [Component ''hdfs_datanode_config'', Component ''hdfs_namenode_config'']
        (Component ''hdfs_namenode_config'') = 1"
proof -
  have h: "components_modified hdfs_dag [''hdfs.yml'', ''hdfs_datanode.yml'', ''hdfs.yml'']
     = Inr [Component ''hdfs_datanode_config'', Component ''hdfs_namenode_config'']"
    by (simp add: evaluate_components_modified)
  have a: "components_modified hdfs_dag [''hdfs.yml'']
     = Inr [Component ''hdfs_datanode_config'', Component ''hdfs_namenode_config'']"
    by (simp add: evaluate_components_modified)
  have b: "components_modified hdfs_dag [''hdfs_datanode.yml'']
     = Inr [Component ''hdfs_datanode_config'']"
    by (simp add: evaluate_components_modified)
  from components_modified_distinct [OF h] h a b show ?thesis by simp
qed

section \<open>Claims about the merge\<close>

lemma merge_hash_lookup:
  "distinct (map fst y) \<Longrightarrow>
     map_of (merge_hash x y) k =
       (case map_of y k of
          None \<Rightarrow> map_of x k
        | Some y_value \<Rightarrow>
            (case map_of x k of
               Some (Mapping a) \<Rightarrow>
                 (case y_value of
                    Mapping b \<Rightarrow> Some (Mapping (merge_hash a b))
                  | Scalar i \<Rightarrow> Some y_value)
             | _ \<Rightarrow> Some y_value))"
proof (induction y arbitrary: x)
  case Nil
  then show ?case by simp
next
  case (Cons entry y)
  obtain key y_value where entry: "entry = (key, y_value)" by (cases entry)
  define x' where "x' =
    (case map_of x key of
       None \<Rightarrow> x @ [(key, y_value)]
     | Some x_value \<Rightarrow>
         (case x_value of
            Mapping a \<Rightarrow>
              (case y_value of
                 Mapping b \<Rightarrow> AList.update key (Mapping (merge_hash a b)) x
               | Scalar i \<Rightarrow> AList.update key y_value x)
          | Scalar i \<Rightarrow> AList.update key y_value x))"
  have m: "merge_hash x (entry # y) = merge_hash x' y"
    by (simp add: entry x'_def)
  from Cons.prems entry have dy: "distinct (map fst y)" and fresh: "map_of y key = None"
    by (auto simp: map_of_eq_None_iff)
  have other: "k \<noteq> key \<Longrightarrow> map_of x' k = map_of x k"
    by (auto simp: x'_def map_add_def update_conv' split: option.splits yaml.splits)
  have this_key: "map_of x' key =
      (case map_of x key of
         Some (Mapping a) \<Rightarrow>
           (case y_value of
              Mapping b \<Rightarrow> Some (Mapping (merge_hash a b))
            | Scalar i \<Rightarrow> Some y_value)
       | _ \<Rightarrow> Some y_value)"
    by (auto simp: x'_def map_add_def update_conv' split: option.splits yaml.splits)
  have lhs: "map_of (merge_hash x (entry # y)) k = map_of (merge_hash x' y) k"
    by (simp only: m)
  have rest: "map_of (merge_hash x' y) k =
       (case map_of y k of
          None \<Rightarrow> map_of x' k
        | Some y_value \<Rightarrow>
            (case map_of x' k of
               Some (Mapping a) \<Rightarrow>
                 (case y_value of
                    Mapping b \<Rightarrow> Some (Mapping (merge_hash a b))
                  | Scalar i \<Rightarrow> Some y_value)
             | _ \<Rightarrow> Some y_value))"
    using dy by (rule Cons.IH)
  show ?case
  proof (cases "k = key")
    case True
    show ?thesis
      unfolding lhs rest using True fresh this_key by (simp add: entry)
  next
    case False
    then have o: "map_of x' k = map_of x k" by (rule other)
    show ?thesis
      unfolding lhs rest o using False by (simp add: entry)
  qed
qed

lemmas evaluate_initialize_variables =
  initialize_variables_def default_var_paths_def validate_def open_var_files_def
  initialize_configuration_def write_back_def Variables_update_def merge_collection_vars_def
  example_env_def example_dag_def reversed_dag_def yarn_manager_def fresh_yarn_fs_def
  source_A_def source_B_def Let_def

text \<open>
  Claim C3.  The merge of two mappings is recursive on a shared key that holds a mapping on
  both sides, and the later source wins on a leaf: merging A, which is a: 1 and b: (c: 2),
  and then B, which is b: (c: 3, d: 4), gives a: 1 and b: (c: 3, d: 4).  This is so for
  the merge itself, for the merge as the initialisation starts it, from the empty mapping, for
  the loop that reads the sources A and B in this order, and for the initialisation of a
  service whose two collections give A and then B for the same file: the revision it commits
  holds the merged mapping.  The merge goes into the nested mapping and does not replace it:
  when the nested mapping of the earlier source has a key e of its own, that key survives next
  to the leaf c that B overrides and the leaf d that B adds.  In general, for mappings
  without repeated keys, a key that the later mapping lacks keeps the value of the earlier
  one, a key that holds a mapping on both sides holds the merge of the two mappings, and any
  other key of the later mapping holds its value there.
\<close>

theorem merge_A_then_B:
  "merge_collection_vars source_A source_B
     = [(''a'', Scalar 1), (''b'', Mapping [(''c'', Scalar 3), (''d'', Scalar 4)])]
   \<and> merge_collection_vars (merge_collection_vars [] source_A) source_B
     = [(''a'', Scalar 1), (''b'', Mapping [(''c'', Scalar 3), (''d'', Scalar 4)])]
   \<and> merge_defaults example_env [''A'', ''B''] []
     = Inr [(''a'', Scalar 1), (''b'', Mapping [(''c'', Scalar 3), (''d'', Scalar 4)])]
   \<and> initialize_variables yarn_manager example_env fresh_yarn_fs
     = Inr (fresh_yarn_fs(''/vars/yarn'' \<mapsto> VersionedDirectory
         \<lparr>worktree = [(''yarn.yml'',
              [(''a'', Scalar 1), (''b'', Mapping [(''c'', Scalar 3), (''d'', Scalar 4)])])],
          revisions = [\<lparr>message = ''yarn: initial commit'',
            changes = [(''yarn.yml'',
              [(''a'', Scalar 1), (''b'', Mapping [(''c'', Scalar 3), (''d'', Scalar 4)])])]\<rparr>]\<rparr>))
   \<and> merge_collection_vars source_A_sibling source_B
     = [(''a'', Scalar 1),
        (''b'', Mapping [(''c'', Scalar 3), (''e'', Scalar 5), (''d'', Scalar 4)])]
   \<and> (distinct (map fst y) \<longrightarrow>
        map_of (merge_collection_vars x y) k =
          (case map_of y k of
             None \<Rightarrow> map_of x k
           | Some y_value \<Rightarrow>
               (case map_of x k of
                  Some (Mapping a) \<Rightarrow>
                    (case y_value of
                       Mapping b \<Rightarrow> Some (Mapping (merge_collection_vars a b))
                     | Scalar i \<Rightarrow> Some y_value)
                | _ \<Rightarrow> Some y_value)))"
proof -
  have "merge_collection_vars source_A source_B
     = [(''a'', Scalar 1), (''b'', Mapping [(''c'', Scalar 3), (''d'', Scalar 4)])]"
    by (simp add: merge_collection_vars_def source_A_def source_B_def)
  moreover have "merge_collection_vars (merge_collection_vars [] source_A) source_B
     = [(''a'', Scalar 1), (''b'', Mapping [(''c'', Scalar 3), (''d'', Scalar 4)])]"
    by (simp add: merge_collection_vars_def source_A_def source_B_def)
  moreover have "merge_defaults example_env [''A'', ''B''] []
     = Inr [(''a'', Scalar 1), (''b'', Mapping [(''c'', Scalar 3), (''d'', Scalar 4)])]"
    by (simp add: merge_collection_vars_def source_A_def source_B_def example_env_def)
  moreover have "initialize_variables yarn_manager example_env fresh_yarn_fs
     = Inr (fresh_yarn_fs(''/vars/yarn'' \<mapsto> VersionedDirectory
         \<lparr>worktree = [(''yarn.yml'',
              [(''a'', Scalar 1), (''b'', Mapping [(''c'', Scalar 3), (''d'', Scalar 4)])])],
          revisions = [\<lparr>message = ''yarn: initial commit'',
            changes = [(''yarn.yml'',
              [(''a'', Scalar 1), (''b'', Mapping [(''c'', Scalar 3), (''d'', Scalar 4)])])]\<rparr>]\<rparr>))"
    by (simp add: evaluate_initialize_variables)
  moreover have "merge_collection_vars source_A_sibling source_B
     = [(''a'', Scalar 1),
        (''b'', Mapping [(''c'', Scalar 3), (''e'', Scalar 5), (''d'', Scalar 4)])]"
    by (simp add: merge_collection_vars_def source_A_sibling_def source_B_def)
  moreover have "distinct (map fst y) \<longrightarrow>
        map_of (merge_collection_vars x y) k =
          (case map_of y k of
             None \<Rightarrow> map_of x k
           | Some y_value \<Rightarrow>
               (case map_of x k of
                  Some (Mapping a) \<Rightarrow>
                    (case y_value of
                       Mapping b \<Rightarrow> Some (Mapping (merge_collection_vars a b))
                     | Scalar i \<Rightarrow> Some y_value)
                | _ \<Rightarrow> Some y_value))"
    unfolding merge_collection_vars_def using merge_hash_lookup[of y x k] by blast
  ultimately show ?thesis by (intro conjI)
qed

theorem merge_A_then_B_witness:
  "distinct (map fst source_B)
   \<and> map_of (merge_collection_vars source_A_sibling source_B) ''a'' = Some (Scalar 1)
   \<and> map_of (merge_collection_vars source_A_sibling source_B) ''b''
     = Some (Mapping (merge_collection_vars
         [(''c'', Scalar 2), (''e'', Scalar 5)] [(''c'', Scalar 3), (''d'', Scalar 4)]))
   \<and> merge_collection_vars [(''c'', Scalar 2), (''e'', Scalar 5)] [(''c'', Scalar 3), (''d'', Scalar 4)]
     = [(''c'', Scalar 3), (''e'', Scalar 5), (''d'', Scalar 4)]"
  using merge_A_then_B [of source_B source_A_sibling "''a''"]
    merge_A_then_B [of source_B source_A_sibling "''b''"]
  by (simp add: source_A_sibling_def source_B_def merge_collection_vars_def)

text \<open>
  Claim C7.  The merge follows the order of the sources and is not commutative: merging B and
  then A gives b: (c: 2, d: 4) and a: 1, which as a dictionary is a: 1 and
  b: (c: 2, d: 4); on the leaf c the later source A wins, and the result differs from the
  one of merging A and then B.  The order of the sources is the order of the collections of
  the graph: with the two collections in the opposite order, the initialisation commits the
  mapping of B and then A.
\<close>

theorem merge_B_then_A:
  "merge_defaults example_env [''B'', ''A''] []
     = Inr [(''b'', Mapping [(''c'', Scalar 2), (''d'', Scalar 4)]), (''a'', Scalar 1)]
   \<and> merge_collection_vars (merge_collection_vars [] source_B) source_A
     = [(''b'', Mapping [(''c'', Scalar 2), (''d'', Scalar 4)]), (''a'', Scalar 1)]
   \<and> map_of (merge_collection_vars (merge_collection_vars [] source_B) source_A)
     = map_of [(''a'', Scalar 1), (''b'', Mapping [(''c'', Scalar 2), (''d'', Scalar 4)])]
   \<and> map_of (merge_collection_vars (merge_collection_vars [] source_B) source_A)
     \<noteq> map_of (merge_collection_vars (merge_collection_vars [] source_A) source_B)
   \<and> initialize_variables (yarn_manager\<lparr>sm_dag := reversed_dag\<rparr>) example_env fresh_yarn_fs
     = Inr (fresh_yarn_fs(''/vars/yarn'' \<mapsto> VersionedDirectory
         \<lparr>worktree = [(''yarn.yml'',
              [(''b'', Mapping [(''c'', Scalar 2), (''d'', Scalar 4)]), (''a'', Scalar 1)])],
          revisions = [\<lparr>message = ''yarn: initial commit'',
            changes = [(''yarn.yml'',
              [(''b'', Mapping [(''c'', Scalar 2), (''d'', Scalar 4)]), (''a'', Scalar 1)])]\<rparr>]\<rparr>))"
proof -
  have ba: "merge_collection_vars (merge_collection_vars [] source_B) source_A
     = [(''b'', Mapping [(''c'', Scalar 2), (''d'', Scalar 4)]), (''a'', Scalar 1)]"
    by (simp add: merge_collection_vars_def source_A_def source_B_def)
  have ab: "merge_collection_vars (merge_collection_vars [] source_A) source_B
     = [(''a'', Scalar 1), (''b'', Mapping [(''c'', Scalar 3), (''d'', Scalar 4)])]"
    by (simp add: merge_collection_vars_def source_A_def source_B_def)
  have "merge_defaults example_env [''B'', ''A''] []
     = Inr [(''b'', Mapping [(''c'', Scalar 2), (''d'', Scalar 4)]), (''a'', Scalar 1)]"
    by (simp add: merge_collection_vars_def source_A_def source_B_def example_env_def)
  moreover note ba
  moreover have "map_of (merge_collection_vars (merge_collection_vars [] source_B) source_A)
     = map_of [(''a'', Scalar 1), (''b'', Mapping [(''c'', Scalar 2), (''d'', Scalar 4)])]"
    unfolding ba by (rule ext) simp
  moreover have "map_of (merge_collection_vars (merge_collection_vars [] source_B) source_A)
     \<noteq> map_of (merge_collection_vars (merge_collection_vars [] source_A) source_B)"
  proof
    assume "map_of (merge_collection_vars (merge_collection_vars [] source_B) source_A)
      = map_of (merge_collection_vars (merge_collection_vars [] source_A) source_B)"
    then have "map_of (merge_collection_vars (merge_collection_vars [] source_B) source_A) ''b''
      = map_of (merge_collection_vars (merge_collection_vars [] source_A) source_B) ''b''"
      by simp
    then show False unfolding ba ab by simp
  qed
  moreover have "initialize_variables (yarn_manager\<lparr>sm_dag := reversed_dag\<rparr>) example_env
      fresh_yarn_fs
     = Inr (fresh_yarn_fs(''/vars/yarn'' \<mapsto> VersionedDirectory
         \<lparr>worktree = [(''yarn.yml'',
              [(''b'', Mapping [(''c'', Scalar 2), (''d'', Scalar 4)]), (''a'', Scalar 1)])],
          revisions = [\<lparr>message = ''yarn: initial commit'',
            changes = [(''yarn.yml'',
              [(''b'', Mapping [(''c'', Scalar 2), (''d'', Scalar 4)]), (''a'', Scalar 1)])]\<rparr>]\<rparr>))"
    by (simp add: evaluate_initialize_variables)
  ultimately show ?thesis by (intro conjI)
qed

section \<open>Claims about the construction of a service manager\<close>

text \<open>
  Claim C6.  The construction of a service manager fails, with the \<^verbatim>\<open>ValueError\<close> of the
  length check, for every service name longer than 15 characters, and succeeds for every name
  of at most 15 characters.
\<close>

theorem ServiceManager_name_length:
  "(length service_name > 15 \<longrightarrow>
      ServiceManager service_name repo d
        = Inl (ValueError (service_name @ '' is longer than 15'')))
   \<and> (length service_name \<le> 15 \<longrightarrow>
      ServiceManager service_name repo d
        = Inr \<lparr>sm_name = service_name, sm_repository = repo, sm_dag = d\<rparr>)"
  by (simp add: ServiceManager_def SERVICE_NAME_MAX_LENGTH_def)

theorem ServiceManager_name_length_witness:
  "ServiceManager ''hdfs'' ''/vars/hdfs'' hdfs_dag
     = Inr \<lparr>sm_name = ''hdfs'', sm_repository = ''/vars/hdfs'', sm_dag = hdfs_dag\<rparr>
   \<and> ServiceManager ''fifteen_letters'' ''/vars/fifteen_letters'' hdfs_dag
     = Inr \<lparr>sm_name = ''fifteen_letters'', sm_repository = ''/vars/fifteen_letters'',
            sm_dag = hdfs_dag\<rparr>
   \<and> ServiceManager ''sixteen_letters_'' ''/vars/sixteen_letters_'' hdfs_dag
     = Inl (ValueError ''sixteen_letters_ is longer than 15'')"
  using ServiceManager_name_length [of "''hdfs''" "''/vars/hdfs''" hdfs_dag]
    ServiceManager_name_length [of "''fifteen_letters''" "''/vars/fifteen_letters''" hdfs_dag]
    ServiceManager_name_length [of "''sixteen_letters_''" "''/vars/sixteen_letters_''" hdfs_dag]
  by simp

section \<open>Initialisation and bootstrap, step by step\<close>

lemma collect_default_var_paths_none:
  "\<forall>collection \<in> set cs. collection service_name = [] \<Longrightarrow>
     collect_default_var_paths cs service_name dvp = dvp"
  by (induction cs arbitrary: dvp) (simp_all add: Let_def)

lemma validate_result:
  "validate msg body f p = Inr f' \<Longrightarrow>
     \<exists>r cfg. f p = Some (VersionedDirectory r) \<and> body r = Inr cfg
       \<and> f' = f(p \<mapsto> VersionedDirectory
                \<lparr>worktree = write_back cfg (worktree r),
                 revisions = \<lparr>message = msg, changes = cfg\<rparr> # revisions r\<rparr>)"
  by (auto simp: validate_def split: option.splits fs_entry.splits sum.splits)

lemma initialize_variables_result:
  "initialize_variables m e f = Inr f' \<Longrightarrow>
     \<exists>r cfg. f (sm_repository m) = Some (VersionedDirectory r)
       \<and> f' = f(sm_repository m \<mapsto> VersionedDirectory
                \<lparr>worktree = write_back cfg (worktree r),
                 revisions = \<lparr>message = sm_name m @ '': initial commit'', changes = cfg\<rparr>
                               # revisions r\<rparr>)"
  unfolding initialize_variables_def Let_def by (drule validate_result) blast

lemma current_version_cong: "f q = g q \<Longrightarrow> current_version f q = current_version g q"
  by (simp add: current_version_def)

lemma step_manager:
  "initialize_service_manager e d dir f s = Inr (f', m) \<Longrightarrow>
     m = \<lparr>sm_name = s, sm_repository = dir @ ''/'' @ s, sm_dag = d\<rparr>"
  by (auto simp: initialize_service_manager_def Let_def ServiceManager_def
      split: sum.splits error.splits if_splits)

lemma make_ancestors_grows:
  "make_ancestors p f as = Inr f' \<Longrightarrow>
     f' q = f q \<or> (f q = None \<and> f' q = Some (PlainDirectory []))"
proof (induction as arbitrary: f)
  case Nil
  then show ?case by simp
next
  case (Cons a as)
  show ?case
  proof (cases "f a")
    case None
    with Cons.prems have "make_ancestors p (f(a \<mapsto> PlainDirectory [])) as = Inr f'" by simp
    from Cons.IH[OF this] None show ?thesis by (cases "q = a") auto
  next
    case (Some x)
    with Cons.prems have "make_ancestors p f as = Inr f'" by (cases x) auto
    then show ?thesis by (rule Cons.IH)
  qed
qed


lemma make_ancestors_error:
  "make_ancestors p f as = Inl err \<Longrightarrow> err = NotADirectoryError p"
proof (induction as arbitrary: f)
  case Nil
  then show ?case by simp
next
  case (Cons a as)
  then show ?case
    by (cases "f a"; cases "the (f a)") (auto split: if_splits)
qed


lemma ensure_directory_present:
  "f p = Some x \<Longrightarrow>
     ensure_directory c f p =
       (if x = RegularFile then Inl (ValueError (absolute c p @ '' should be a directory''))
        else Inr f)"
  by (cases x) (simp_all add: ensure_directory_def mkdir_def is_dir_def)

lemma ensure_directory_grows:
  assumes "ensure_directory c f p = Inr f'"
  shows "f' q = f q \<or> (f q = None \<and> f' q = Some (PlainDirectory []))"
proof (cases "f p")
  case None
  with assms obtain f1 where f1: "make_ancestors p f (ancestors p) = Inr f1"
    and f': "f' = f1(p \<mapsto> PlainDirectory [])"
    by (auto simp: ensure_directory_def mkdir_def split: sum.splits error.splits
        dest: make_ancestors_error)
  from make_ancestors_grows[OF f1, of q] None f' show ?thesis by (cases "q = p") auto
next
  case (Some x)
  with assms show ?thesis by (simp add: ensure_directory_present split: if_splits)
qed

lemma GitRepository_init_frame: "GitRepository_init f p = Inr f' \<Longrightarrow> q \<noteq> p \<Longrightarrow> f' q = f q"
  by (auto simp: GitRepository_init_def split: option.splits fs_entry.splits)

lemma initialize_variables_frame:
  "initialize_variables m e f = Inr f' \<Longrightarrow> q \<noteq> sm_repository m \<Longrightarrow> f' q = f q"
  by (drule initialize_variables_result) auto

lemma step_grows:
  assumes "initialize_service_manager e d dir f s = Inr (f', m)" and "q \<noteq> dir @ ''/'' @ s"
  shows "f' q = f q \<or> (f q = None \<and> f' q = Some (PlainDirectory []))"
proof -
  from assms(1) obtain f1 f2 where
    f1: "ensure_directory (cwd e) f (dir @ ''/'' @ s) = Inr f1"
    and f2: "GitRepository_init f1 (dir @ ''/'' @ s) = Inr f2"
    and f3: "f' = f2 \<or> initialize_variables m e f2 = Inr f'"
    and m: "sm_repository m = dir @ ''/'' @ s"
    by (auto simp: initialize_service_manager_def Let_def ServiceManager_def
        split: sum.splits error.splits if_splits)
  from f3 m assms(2) have "f' q = f2 q"
    by (auto dest: initialize_variables_frame)
  with f2 assms(2) have "f' q = f1 q"
    by (simp add: GitRepository_init_frame)
  with ensure_directory_grows[OF f1, of q] show ?thesis by simp
qed

lemma step_has_revision:
  assumes "current_version f (dir @ ''/'' @ s) = Inr v"
    and "initialize_service_manager e d dir f s = Inr (f', m)"
  shows "f' = f"
proof -
  from assms(1) obtain r where r: "f (dir @ ''/'' @ s) = Some (VersionedDirectory r)"
    and v: "revisions r \<noteq> []"
    by (auto simp: current_version_def split: option.splits fs_entry.splits list.splits)
  have e1: "ensure_directory (cwd e) f (dir @ ''/'' @ s) = Inr f"
    using r by (simp add: ensure_directory_present)
  have e2: "GitRepository_init f (dir @ ''/'' @ s) = Inr f"
    using r by (simp add: GitRepository_init_def)
  show ?thesis
    using assms e1 e2
    by (auto simp: initialize_service_manager_def Let_def ServiceManager_def version_def
        split: sum.splits error.splits if_splits)
qed


lemma step_no_revision:
  assumes "\<forall>v. current_version f (dir @ ''/'' @ s) \<noteq> Inr v"
    and "initialize_service_manager e d dir f s = Inr (f', m)"
  shows "\<exists>f2 c. version m f2 = Inl NoVersionYet \<and> initialize_variables m e f2 = Inr f'
           \<and> current_version f' (dir @ ''/'' @ s) = Inr c
           \<and> message c = s @ '': initial commit''"
proof -
  from assms(2) obtain f1 f2 where
    f1: "ensure_directory (cwd e) f (dir @ ''/'' @ s) = Inr f1"
    and f2: "GitRepository_init f1 (dir @ ''/'' @ s) = Inr f2"
    and m: "m = \<lparr>sm_name = s, sm_repository = dir @ ''/'' @ s, sm_dag = d\<rparr>"
    and f3: "(\<exists>v. version m f2 = Inr v \<and> f' = f2)
             \<or> (version m f2 = Inl NoVersionYet \<and> initialize_variables m e f2 = Inr f')"
    by (auto simp: initialize_service_manager_def Let_def ServiceManager_def
        split: sum.splits error.splits if_splits)
  have "f2 (dir @ ''/'' @ s) = f (dir @ ''/'' @ s) \<or> (\<exists>files. f2 (dir @ ''/'' @ s)
          = Some (VersionedDirectory \<lparr>worktree = files, revisions = []\<rparr>))"
    using ensure_directory_grows[OF f1, of "dir @ ''/'' @ s"] f2
    by (auto simp: GitRepository_init_def split: option.splits fs_entry.splits)
  with assms(1) have "\<forall>v. current_version f2 (dir @ ''/'' @ s) \<noteq> Inr v"
    by (auto simp: current_version_def)
  with f3 m have nv: "version m f2 = Inl NoVersionYet" and iv: "initialize_variables m e f2 = Inr f'"
    by (auto simp: version_def)
  from initialize_variables_result[OF iv] m
  have "\<exists>c. current_version f' (dir @ ''/'' @ s) = Inr c \<and> message c = s @ '': initial commit''"
    by (auto simp: current_version_def)
  with nv iv show ?thesis by blast
qed

lemma step_gives_revision:
  assumes "initialize_service_manager e d dir f s = Inr (f', m)"
  shows "\<exists>c. current_version f' (dir @ ''/'' @ s) = Inr c"
proof (cases "\<exists>v. current_version f (dir @ ''/'' @ s) = Inr v")
  case True
  then show ?thesis using step_has_revision[OF _ assms] by auto
next
  case False
  then show ?thesis using step_no_revision[OF _ assms] by auto
qed

section \<open>The bootstrap loop\<close>

lemma loop_preserves:
  "initialize_service_managers_loop e d dir ss f sms = Inr (f', sms') \<Longrightarrow>
     current_version f q = Inr v \<Longrightarrow> f' q = f q"
proof (induction ss arbitrary: f sms)
  case Nil
  then show ?case by simp
next
  case (Cons x ss)
  from Cons.prems(1) obtain f1 m where
    step: "initialize_service_manager e d dir f x = Inr (f1, m)"
    and rest: "initialize_service_managers_loop e d dir ss f1 (AList.update x m sms) = Inr (f', sms')"
    by (auto split: sum.splits)
  have same: "f1 q = f q"
  proof (cases "q = dir @ ''/'' @ x")
    case True
    with Cons.prems(2) step show ?thesis using step_has_revision by blast
  next
    case False
    from Cons.prems(2) have "f q \<noteq> None"
      by (auto simp: current_version_def split: option.splits)
    with step_grows[OF step False] show ?thesis by simp
  qed
  then have "current_version f1 q = Inr v"
    using Cons.prems(2) current_version_cong[of f1 q f] by simp
  from Cons.IH[OF rest this] same show ?case by simp
qed

lemma loop_initializes:
  "initialize_service_managers_loop e d dir ss f sms = Inr (f', sms') \<Longrightarrow> s \<in> set ss \<Longrightarrow>
     \<forall>v. current_version f (dir @ ''/'' @ s) \<noteq> Inr v \<Longrightarrow>
     \<exists>m f2 f3 c. ServiceManager s (dir @ ''/'' @ s) d = Inr m
       \<and> version m f2 = Inl NoVersionYet \<and> initialize_variables m e f2 = Inr f3
       \<and> f' (dir @ ''/'' @ s) = f3 (dir @ ''/'' @ s)
       \<and> current_version f' (dir @ ''/'' @ s) = Inr c
       \<and> message c = s @ '': initial commit''"
proof (induction ss arbitrary: f sms)
  case Nil
  then show ?case by simp
next
  case (Cons x ss)
  from Cons.prems(1) obtain f1 m where
    step: "initialize_service_manager e d dir f x = Inr (f1, m)"
    and rest: "initialize_service_managers_loop e d dir ss f1 (AList.update x m sms) = Inr (f', sms')"
    by (auto split: sum.splits)
  show ?case
  proof (cases "x = s")
    case True
    from step_no_revision[OF Cons.prems(3) step[unfolded True]] obtain f2 c where
      nv: "version m f2 = Inl NoVersionYet" and iv: "initialize_variables m e f2 = Inr f1"
      and c: "current_version f1 (dir @ ''/'' @ s) = Inr c"
      and msg: "message c = s @ '': initial commit''"
      by blast
    from loop_preserves[OF rest c] have same: "f' (dir @ ''/'' @ s) = f1 (dir @ ''/'' @ s)" .
    then have c': "current_version f' (dir @ ''/'' @ s) = Inr c"
      using c current_version_cong[of f' "dir @ ''/'' @ s" f1] by simp
    have sm: "ServiceManager s (dir @ ''/'' @ s) d = Inr m"
      using step True
      by (auto simp: initialize_service_manager_def Let_def split: sum.splits error.splits)
    from sm nv iv same c' msg show ?thesis by blast
  next
    case False
    then have "dir @ ''/'' @ s \<noteq> dir @ ''/'' @ x" by simp
    from step_grows[OF step this]
    have "f1 (dir @ ''/'' @ s) = f (dir @ ''/'' @ s)
        \<or> f1 (dir @ ''/'' @ s) = Some (PlainDirectory [])"
      by blast
    then have "\<forall>v. current_version f1 (dir @ ''/'' @ s) \<noteq> Inr v"
      using Cons.prems(3) current_version_cong[of f1 "dir @ ''/'' @ s" f]
      by (auto simp: current_version_def)
    moreover from False Cons.prems(2) have "s \<in> set ss" by simp
    ultimately show ?thesis using Cons.IH[OF rest] by blast
  qed
qed

lemma loop_has_revision:
  assumes "initialize_service_managers_loop e d dir ss f sms = Inr (f', sms')" and "s \<in> set ss"
  shows "\<exists>c. current_version f' (dir @ ''/'' @ s) = Inr c"
proof (cases "\<exists>v. current_version f (dir @ ''/'' @ s) = Inr v")
  case True
  then obtain v where v: "current_version f (dir @ ''/'' @ s) = Inr v" by blast
  from loop_preserves[OF assms(1) v] v show ?thesis
    using current_version_cong[of f' "dir @ ''/'' @ s" f] by simp
next
  case False
  then show ?thesis using loop_initializes[OF assms] by blast
qed

lemma set_AList_update: "set (AList.update k v al) \<subseteq> insert (k, v) (set al)"
  by (induction al) auto

lemma loop_managers:
  "initialize_service_managers_loop e d dir ss f sms = Inr (f', sms') \<Longrightarrow> (k, m) \<in> set sms' \<Longrightarrow>
     (k, m) \<in> set sms \<or> (k \<in> set ss \<and> sm_repository m = dir @ ''/'' @ k)"
proof (induction ss arbitrary: f sms)
  case Nil
  then show ?case by simp
next
  case (Cons x ss)
  from Cons.prems(1) obtain f1 m1 where
    step: "initialize_service_manager e d dir f x = Inr (f1, m1)"
    and rest: "initialize_service_managers_loop e d dir ss f1 (AList.update x m1 sms) = Inr (f', sms')"
    by (auto split: sum.splits)
  from Cons.IH[OF rest Cons.prems(2)] show ?case
  proof
    assume "(k, m) \<in> set (AList.update x m1 sms)"
    with set_AList_update[of x m1 sms] have "(k, m) = (x, m1) \<or> (k, m) \<in> set sms" by auto
    with step_manager[OF step] show ?thesis by auto
  next
    assume "k \<in> set ss \<and> sm_repository m = dir @ ''/'' @ k"
    then show ?thesis by simp
  qed
qed


lemma example_bootstrap:
  "initialize_service_managers example_env example_dag ''/vars'' example_fs
     = Inr (bootstrapped_fs, [(''hdfs'', hdfs_manager), (''yarn'', yarn_manager)])"
  by (simp add: initialize_service_managers_def example_dag_def example_fs_def
      initialize_service_manager_def ensure_directory_def mkdir_def ancestors_def
      path_parts_def path_root_def format_path_def absolute_def is_dir_def GitRepository_init_def
      ServiceManager_def SERVICE_NAME_MAX_LENGTH_def version_def current_version_def
      initialize_variables_def default_var_paths_def validate_def open_var_files_def
      initialize_configuration_def write_back_def example_env_def Let_def
      bootstrapped_fs_def hdfs_commit_def yarn_commit_def hdfs_manager_def yarn_manager_def)

section \<open>Claims about the initialisation of variables\<close>

text \<open>
  Claim C4.  For a service to which no collection gives default variables, the initialisation
  still commits exactly one new revision on top of those the repository has.  The revision
  holds exactly one configuration file, named by the service name followed by the extension,
  with the content the file had when it was opened, which is empty when the file did not
  exist: no key is written into it.  The message of the revision is the service name followed
  by \<^verbatim>\<open>: initial commit\<close>.
\<close>

theorem initialize_variables_without_defaults:
  assumes "\<forall>collection \<in> set (collections (sm_dag self)). collection (sm_name self) = []"
    and "f (sm_repository self) = Some (VersionedDirectory r)"
  shows "initialize_variables self e f
      = Inr (f(sm_repository self \<mapsto> VersionedDirectory
          \<lparr>worktree = write_back (open_var_files r [sm_name self @ YML_EXTENSION e]) (worktree r),
           revisions = \<lparr>message = sm_name self @ '': initial commit'',
                        changes = open_var_files r [sm_name self @ YML_EXTENSION e]\<rparr>
                       # revisions r\<rparr>))
    \<and> (\<exists>content. open_var_files r [sm_name self @ YML_EXTENSION e]
          = [(sm_name self @ YML_EXTENSION e, content)]
        \<and> (map_of (worktree r) (sm_name self @ YML_EXTENSION e) = None \<longrightarrow> content = [])
        \<and> (\<forall>v. map_of (worktree r) (sm_name self @ YML_EXTENSION e) = Some v \<longrightarrow> content = v))"
proof -
  have "collect_default_var_paths (collections (sm_dag self)) (sm_name self) [] = []"
    using assms(1) by (rule collect_default_var_paths_none)
  then have dvp: "default_var_paths e self = [(sm_name self @ YML_EXTENSION e, None)]"
    by (simp add: default_var_paths_def)
  show ?thesis
    using assms(2)
    by (simp add: initialize_variables_def dvp validate_def open_var_files_def
        initialize_configuration_def)
qed

theorem initialize_variables_without_defaults_witness:
  "initialize_variables hdfs_manager example_env empty_repository_fs
     = Inr (empty_repository_fs(''/vars/hdfs'' \<mapsto>
         VersionedDirectory \<lparr>worktree = [(''hdfs.yml'', [])], revisions = [hdfs_commit]\<rparr>))"
proof -
  have c: "\<forall>collection \<in> set (collections (sm_dag hdfs_manager)).
      collection (sm_name hdfs_manager) = []"
    by (simp add: hdfs_manager_def example_dag_def)
  have r: "empty_repository_fs (sm_repository hdfs_manager)
      = Some (VersionedDirectory \<lparr>worktree = [], revisions = []\<rparr>)"
    by (simp add: hdfs_manager_def empty_repository_fs_def)
  from initialize_variables_without_defaults
      [where self = hdfs_manager and f = empty_repository_fs and e = example_env, OF c r]
  show ?thesis
    by (simp add: hdfs_manager_def example_env_def open_var_files_def write_back_def
        hdfs_commit_def)
qed

section \<open>Claims about the bootstrap\<close>







text \<open>
  Claim C10.  When the bootstrap returns, reading the version of any service manager of the
  returned mapping gives a revision; it does not raise \<^verbatim>\<open>NoVersionYet\<close>.
\<close>

theorem bootstrap_gives_every_manager_a_version:
  assumes "initialize_service_managers e d dir f = Inr (f', sms)"
    and "(k, m) \<in> set sms"
  shows "\<exists>c. version m f' = Inr c"
proof -
  from assms have "k \<in> set (services d) \<and> sm_repository m = dir @ ''/'' @ k"
    unfolding initialize_service_managers_def using loop_managers by fastforce
  with assms(1) show ?thesis
    unfolding initialize_service_managers_def version_def using loop_has_revision by fastforce
qed

theorem bootstrap_gives_every_manager_a_version_witness:
  "initialize_service_managers example_env example_dag ''/vars'' example_fs
     = Inr (bootstrapped_fs, [(''hdfs'', hdfs_manager), (''yarn'', yarn_manager)])
   \<and> version hdfs_manager bootstrapped_fs = Inr hdfs_commit
   \<and> version yarn_manager bootstrapped_fs = Inr yarn_commit"
  using bootstrap_gives_every_manager_a_version [OF example_bootstrap, of "''hdfs''" hdfs_manager]
    bootstrap_gives_every_manager_a_version [OF example_bootstrap, of "''yarn''" yarn_manager]
    example_bootstrap
  by (simp add: version_def current_version_def bootstrapped_fs_def example_fs_def
      hdfs_manager_def yarn_manager_def)

end
